theory Spec2Isabelle
  imports Main "HOL-Library.Sublist"
begin

section \<open>Strings of the editor\<close>

text \<open>
  The analysis of \<^verbatim>\<open>src/script.js\<close> works on JavaScript strings. A string is modelled as
  a \<open>string\<close> (a list of \<open>char\<close>), each \<open>char\<close> standing for one code unit in the
  Latin-1 range \<open>0..255\<close>; the built-in string methods the source calls are written out
  below for that range.
\<close>

definition isWhitespace :: "char \<Rightarrow> bool" where
  \<comment> \<open>what \<^verbatim>\<open>\s\<close> and \<^verbatim>\<open>trim()\<close> treat as white space: TAB, LF, VT, FF, CR, SP, NBSP\<close>
  "isWhitespace c = (of_char c \<in> {9, 10, 11, 12, 13, 32, 160 :: nat})"

definition trim :: "string \<Rightarrow> string" where
  "trim s = rev (dropWhile isWhitespace (rev (dropWhile isWhitespace s)))"

definition toLowerChar :: "char \<Rightarrow> char" where
  \<comment> \<open>\<^verbatim>\<open>A-Z\<close> and the accented capitals \<^verbatim>\<open>U+00C0..U+00DE\<close> (but not the
      multiplication sign \<^verbatim>\<open>U+00D7\<close>) move up by 32\<close>
  "toLowerChar c =
     (let n = of_char c :: nat
      in if (65 \<le> n \<and> n \<le> 90) \<or> (192 \<le> n \<and> n \<le> 222 \<and> n \<noteq> 215)
         then char_of (n + 32) else c)"

definition toLowerCase :: "string \<Rightarrow> string" where
  "toLowerCase s = map toLowerChar s"

definition toUpperChar :: "char \<Rightarrow> char" where
  \<comment> \<open>only ever applied to letters \<^verbatim>\<open>a-z\<close> (the vowel cluster of a normalized word)\<close>
  "toUpperChar c =
     (let n = of_char c :: nat
      in if 97 \<le> n \<and> n \<le> 122 then char_of (n - 32) else c)"

definition toUpperCase :: "string \<Rightarrow> string" where
  "toUpperCase s = map toUpperChar s"

definition isLowerLetter :: "char \<Rightarrow> bool" where
  \<comment> \<open>the character class \<^verbatim>\<open>[a-z]\<close>\<close>
  "isLowerLetter c = (97 \<le> (of_char c :: nat) \<and> (of_char c :: nat) \<le> 122)"

definition stripNonLetters :: "string \<Rightarrow> string" where
  \<comment> \<open>\<^verbatim>\<open>.replace(/[^a-z]/g, "")\<close>\<close>
  "stripNonLetters s = filter isLowerLetter s"

definition vowels :: string where
  "vowels = ''aeiouy''"

definition isVowel :: "char \<Rightarrow> bool" where
  \<comment> \<open>\<^verbatim>\<open>vowels.includes(c)\<close> for a single character \<open>c\<close>\<close>
  "isVowel c = (c \<in> set vowels)"

definition endsWith :: "string \<Rightarrow> string \<Rightarrow> bool" where
  "endsWith s t = (length t \<le> length s \<and> drop (length s - length t) s = t)"

definition sliceLast3 :: "string \<Rightarrow> string" where
  \<comment> \<open>\<^verbatim>\<open>.slice(-3)\<close>: the last three characters, or the whole string when shorter\<close>
  "sliceLast3 s = drop (length s - 3) s"

function splitWhitespace :: "string \<Rightarrow> string list" where
  "splitWhitespace s =
     (case dropWhile (\<lambda>c. \<not> isWhitespace c) s of
        [] \<Rightarrow> [s]
      | _ # rest \<Rightarrow> takeWhile (\<lambda>c. \<not> isWhitespace c) s # splitWhitespace (dropWhile isWhitespace rest))"
  by pat_completeness auto
termination
proof (relation "measure length")
  show "wf (measure length)" by simp
next
  fix s :: string and x rest
  assume "dropWhile (\<lambda>c. \<not> isWhitespace c) s = x # rest"
  moreover have "length (dropWhile (\<lambda>c. \<not> isWhitespace c) s) \<le> length s"
    by (rule length_dropWhile_le)
  ultimately have "length rest < length s" by simp
  moreover have "length (dropWhile isWhitespace rest) \<le> length rest"
    by (rule length_dropWhile_le)
  ultimately show "(dropWhile isWhitespace rest, s) \<in> measure length" by simp
qed

fun splitNewline :: "string \<Rightarrow> string list" where
  "splitNewline [] = [[]]"
| "splitNewline (c # cs) =
     (if c = CHR 0x0A then [] # splitNewline cs
      else (case splitNewline cs of
              [] \<Rightarrow> [[c]]
            | l # ls \<Rightarrow> (c # l) # ls))"

section \<open>Syllable counting\<close>

text \<open>
  \<^verbatim>\<open>countSyllables\<close> looks the word up in the object literal \<^verbatim>\<open>specialCases\<close> with
  \<^verbatim>\<open>specialCases[word]\<close>. A property read on an object literal also finds what the
  literal inherits from \<^verbatim>\<open>Object.prototype\<close>; the only inherited property whose name
  consists of lower-case letters is \<^verbatim>\<open>constructor\<close>, whose value is the function
  \<^verbatim>\<open>Object\<close>. The value of a lookup, and so of \<^verbatim>\<open>countSyllables\<close>, is therefore a
  number or something that is not a number.
\<close>

datatype jsvalue =
    Number nat
  | NonNumber
    \<comment> \<open>the function \<^verbatim>\<open>Object\<close>, or the string that \<^verbatim>\<open>+=\<close> makes of it\<close>

definition specialCasesOwn :: "(string \<times> nat) list" where
  "specialCasesOwn =
     [(''the'', 1), (''a'', 1), (''i'', 1), (''are'', 1), (''fire'', 2), (''hour'', 2),
      (''our'', 2), (''every'', 3), (''being'', 2), (''quiet'', 2), (''poem'', 2)]"

definition specialCases :: "string \<Rightarrow> jsvalue option" where
  \<comment> \<open>\<^verbatim>\<open>specialCases[word]\<close>; \<open>None\<close> is \<^verbatim>\<open>undefined\<close>\<close>
  "specialCases w =
     (case map_of specialCasesOwn w of
        Some n \<Rightarrow> Some (Number n)
      | None \<Rightarrow> if w = ''constructor'' then Some NonNumber else None)"

fun truthy :: "jsvalue option \<Rightarrow> bool" where
  "truthy None = False"
| "truthy (Some (Number n)) = (n \<noteq> 0)"
| "truthy (Some NonNumber) = True"

fun countVowelGroups :: "string \<Rightarrow> nat \<Rightarrow> bool \<Rightarrow> nat" where
  \<comment> \<open>the loop over the letters, carrying \<^verbatim>\<open>count\<close> and \<^verbatim>\<open>previousWasVowel\<close>\<close>
  "countVowelGroups [] count previousWasVowel = count"
| "countVowelGroups (c # cs) count previousWasVowel =
     countVowelGroups cs
       (if isVowel c \<and> \<not> previousWasVowel then count + 1 else count) (isVowel c)"

definition countSyllables :: "string \<Rightarrow> jsvalue" where
  "countSyllables word0 =
     (let word1 = trim (toLowerCase word0)
      in if length word1 = 0 then Number 0
      else
        let word = stripNonLetters word1
        in if length word = 0 then Number 0
        else if truthy (specialCases word) then the (specialCases word)
        else
          let count = countVowelGroups word 0 False;
              count = (if endsWith word ''e'' \<and> count > 1 then count - 1 else count);
              count = (if length word > 2 \<and> endsWith word ''le''
                          \<and> \<not> isVowel (word ! (length word - 3))
                       then count + 1 else count)
          in Number (max 1 count))"

fun jsAdd :: "jsvalue \<Rightarrow> jsvalue \<Rightarrow> jsvalue" where
  \<comment> \<open>\<^verbatim>\<open>total += v\<close>: addition of numbers; with the function \<^verbatim>\<open>Object\<close> (or a string
      made of it) on either side the result is a string\<close>
  "jsAdd (Number a) (Number b) = Number (a + b)"
| "jsAdd _ _ = NonNumber"

fun sumSyllables :: "string list \<Rightarrow> jsvalue \<Rightarrow> jsvalue" where
  "sumSyllables [] total' = total'"
| "sumSyllables (word # ws) total' =
     sumSyllables ws (if trim word \<noteq> [] then jsAdd total' (countSyllables word) else total')"

definition countLineSyllables :: "string \<Rightarrow> jsvalue" where
  "countLineSyllables line =
     (if trim line = [] then Number 0
      else sumSyllables (splitWhitespace line) (Number 0))"

section \<open>Last word, normalization and rime parts\<close>

definition isPunctuation :: "char \<Rightarrow> bool" where
  \<comment> \<open>the class \<^verbatim>\<open>[.,!?;:"'()[\]{}]\<close>\<close>
  "isPunctuation c =
     (c \<in> set ''.,!?;:()[]{}'' \<or> c = CHR 0x22 \<or> c = CHR 0x27)"

text \<open>
  \<^verbatim>\<open>split(/\s+/)\<close> never returns an empty array (lemma \<open>splitWhitespace_nonempty\<close>
  below), so \<^verbatim>\<open>words[words.length - 1]\<close> is the last element.
\<close>

definition getLastWord :: "string \<Rightarrow> string" where
  "getLastWord line =
     (let trimmed = trim line
      in if trimmed = [] then []
      else
        let words = splitWhitespace (filter (\<lambda>c. \<not> isPunctuation c) trimmed)
        in toLowerCase (last words))"

definition finalToken :: "string \<Rightarrow> string" where
  \<comment> \<open>the words of the specification, "the final whitespace-separated token": the last
      maximal run of characters other than white space in the text, empty when the text
      has none; used to state what \<open>getLastWord\<close> returns, not by the program\<close>
  "finalToken s =
     rev (takeWhile (\<lambda>c. \<not> isWhitespace c) (dropWhile isWhitespace (rev s)))"

definition endsInWhitespace :: "string \<Rightarrow> bool" where
  "endsInWhitespace s = (s \<noteq> [] \<and> isWhitespace (last s))"

definition trailingRun :: "string \<Rightarrow> string" where
  \<comment> \<open>used in the proofs only: the characters after the last white space of the text,
      which is the last element of the array that \<^verbatim>\<open>split(/\s+/)\<close> returns\<close>
  "trailingRun s = rev (takeWhile (\<lambda>c. \<not> isWhitespace c) (rev s))"

definition normalizeWord :: "string \<Rightarrow> string" where
  "normalizeWord rawWord =
     (if rawWord = [] then [] else stripNonLetters (toLowerCase rawWord))"

record rime_parts =
  vowelCluster :: string
  coda :: string
  rime :: string
  ending :: string

text \<open>
  The two \<^verbatim>\<open>while\<close> loops of \<^verbatim>\<open>getRimeParts\<close> walk \<^verbatim>\<open>index\<close> down from the end of the
  word. The counter \<open>m\<close> below is \<^verbatim>\<open>index + 1\<close>, so that \<^verbatim>\<open>index >= 0\<close> is \<open>m > 0\<close>
  and \<^verbatim>\<open>normalized[index]\<close> is \<open>w ! (m - 1)\<close>; each loop returns the counter it stopped
  at and the string it collected.
\<close>

fun collectCoda :: "string \<Rightarrow> nat \<Rightarrow> string \<Rightarrow> nat \<times> string" where
  "collectCoda w 0 acc = (0, acc)"
| "collectCoda w (Suc k) acc =
     (if \<not> isVowel (w ! k) then collectCoda w k (w ! k # acc) else (Suc k, acc))"

fun collectVowels :: "string \<Rightarrow> nat \<Rightarrow> string \<Rightarrow> nat \<times> string" where
  "collectVowels w 0 acc = (0, acc)"
| "collectVowels w (Suc k) acc =
     (if isVowel (w ! k) then collectVowels w k (w ! k # acc) else (Suc k, acc))"

definition getRimeParts :: "string \<Rightarrow> rime_parts" where
  "getRimeParts rawWord =
     (let normalized = normalizeWord rawWord
      in if normalized = [] then
           \<lparr>vowelCluster = [], coda = [], rime = [], ending = []\<rparr>
      else
        let (index, cd) = collectCoda normalized (length normalized) [];
            (index', vc) = collectVowels normalized index []
        in if vc = [] then
             \<lparr>vowelCluster = [], coda = [], rime = [], ending = sliceLast3 normalized\<rparr>
           else
             \<lparr>vowelCluster = vc, coda = cd, rime = vc @ cd, ending = sliceLast3 normalized\<rparr>)"

record phonetic_pattern =
  vowelSound :: string
  consonantEnding :: string
  exactEnding :: string

definition getPhoneticPattern :: "string \<Rightarrow> phonetic_pattern" where
  "getPhoneticPattern word =
     (let parts = getRimeParts word
      in \<lparr>vowelSound = toUpperCase (vowelCluster parts),
          consonantEnding = coda parts,
          exactEnding = ending parts\<rparr>)"

section \<open>Rhyme and near rhyme\<close>

definition isRhyme :: "string \<Rightarrow> string \<Rightarrow> bool" where
  "isRhyme word1 word2 =
     (let first = normalizeWord word1; second = normalizeWord word2
      in if first = [] \<or> second = [] \<or> first = second then False
      else
        let parts1 = getRimeParts first; parts2 = getRimeParts second
        in if vowelCluster parts1 = [] \<or> vowelCluster parts2 = [] then False
        else if rime parts1 = rime parts2 then True
        else if ending parts1 = ending parts2 \<and> length (ending parts1) \<ge> 2 then True
        else False)"

definition isNearRhyme :: "string \<Rightarrow> string \<Rightarrow> bool" where
  "isNearRhyme word1 word2 =
     (let first = normalizeWord word1; second = normalizeWord word2
      in if first = [] \<or> second = [] \<or> first = second then False
      else if isRhyme word1 word2 then False
      else
        let pattern1 = getPhoneticPattern first; pattern2 = getPhoneticPattern second
        in if vowelSound pattern1 \<noteq> []
              \<and> vowelSound pattern1 = vowelSound pattern2
              \<and> consonantEnding pattern1 \<noteq> consonantEnding pattern2 then True
        else if consonantEnding pattern1 \<noteq> []
              \<and> consonantEnding pattern1 = consonantEnding pattern2
              \<and> vowelSound pattern1 \<noteq> vowelSound pattern2 then True
        else False)"

section \<open>Sections and groups\<close>

text \<open>
  \<^verbatim>\<open>updateEditor\<close> splits the text of the editor at line feeds, builds the groups of
  rhyming and near-rhyming lines, and fills three columns beside the text. The model keeps
  the groups and, for each line, what the syllable column and the rhyme column show; the
  line-number column, the scroll positions and the saved copy of the text play no part in
  the analysis and are left out.
\<close>

definition BREAK_MARKER :: string where
  "BREAK_MARKER = ''---''"

definition breakPositions :: "string list \<Rightarrow> nat list" where
  "breakPositions lines =
     filter (\<lambda>i. trim (lines ! i) = BREAK_MARKER) [0..<length lines]"

fun inSameSection :: "nat list \<Rightarrow> nat \<Rightarrow> nat \<Rightarrow> bool" where
  "inSameSection [] i j = True"
| "inSameSection (breakPos # rest) i j =
     (if (i < breakPos \<and> j \<ge> breakPos) \<or> (j < breakPos \<and> i \<ge> breakPos) then False
      else inSameSection rest i j)"

definition isContentLine :: "string \<Rightarrow> bool" where
  \<comment> \<open>\<^verbatim>\<open>line.trim() && line.trim() !== BREAK_MARKER\<close>\<close>
  "isContentLine line = (trim line \<noteq> [] \<and> trim line \<noteq> BREAK_MARKER)"

definition inGroup :: "nat list list \<Rightarrow> nat \<Rightarrow> bool" where
  \<comment> \<open>\<^verbatim>\<open>groups.some((group) => group.includes(i))\<close>\<close>
  "inGroup groups i = (\<exists>g \<in> set groups. i \<in> set g)"

definition scanGroup ::
  "(string \<Rightarrow> string \<Rightarrow> bool) \<Rightarrow> string list \<Rightarrow> string list \<Rightarrow> nat list \<Rightarrow> nat \<Rightarrow> nat list"
where
  \<comment> \<open>the inner loop: \<open>[i]\<close>, then every later \<open>j\<close> that passes the test, in order\<close>
  "scanGroup matches lines lastWords bps i =
     i # filter (\<lambda>j. isContentLine (lines ! j) \<and> inSameSection bps i j
                       \<and> matches (lastWords ! i) (lastWords ! j))
           [i + 1..<length lines]"

definition groupStep ::
  "string list \<Rightarrow> string list \<Rightarrow> nat list \<Rightarrow> nat
     \<Rightarrow> nat list list \<times> nat list list \<Rightarrow> nat list list \<times> nat list list"
where
  \<comment> \<open>one round of the outer loop; \<^verbatim>\<open>inRhymeGroup\<close> is read once, before the rhyme
      group of \<open>i\<close> is built\<close>
  "groupStep lines lastWords bps i state =
     (case state of (rhymeGroups, nearRhymeGroups) \<Rightarrow>
        if \<not> isContentLine (lines ! i) then (rhymeGroups, nearRhymeGroups)
        else
          let inRhymeGroup = inGroup rhymeGroups i;
              rhymeGroups' =
                (if \<not> inRhymeGroup then
                   (let rhymeGroup = scanGroup isRhyme lines lastWords bps i
                    in if length rhymeGroup > 1 then rhymeGroups @ [rhymeGroup]
                       else rhymeGroups)
                 else rhymeGroups);
              inNearRhymeGroup = inGroup nearRhymeGroups i;
              nearRhymeGroups' =
                (if \<not> inNearRhymeGroup \<and> \<not> inRhymeGroup then
                   (let nearRhymeGroup = scanGroup isNearRhyme lines lastWords bps i
                    in if length nearRhymeGroup > 1 then nearRhymeGroups @ [nearRhymeGroup]
                       else nearRhymeGroups)
                 else nearRhymeGroups)
          in (rhymeGroups', nearRhymeGroups'))"

definition anchoredGroup :: "nat list \<Rightarrow> nat list \<Rightarrow> bool" where
  \<comment> \<open>the invariant of the groups, used in the proofs only: a group has a first line \<open>i\<close>,
      and each other member comes later and passed \<open>inSameSection\<close> against \<open>i\<close>\<close>
  "anchoredGroup bps g = (\<exists>i. \<forall>x\<in>set g. x = i \<or> (i < x \<and> inSameSection bps i x))"

definition buildGroups :: "string list \<Rightarrow> nat list list \<times> nat list list" where
  "buildGroups lines =
     fold (groupStep lines (map getLastWord lines) (breakPositions lines))
       [0..<length lines] ([], [])"

fun findIndex :: "('a \<Rightarrow> bool) \<Rightarrow> 'a list \<Rightarrow> nat option" where
  \<comment> \<open>\<open>None\<close> is the \<^verbatim>\<open>-1\<close> of \<^verbatim>\<open>findIndex\<close>\<close>
  "findIndex P [] = None"
| "findIndex P (x # xs) = (if P x then Some 0 else map_option Suc (findIndex P xs))"

datatype indicator =
    NoIndicator
  | RhymeDot nat
  | NearRhymeDot nat

definition rhymeIndicator ::
  "nat list list \<Rightarrow> nat list list \<Rightarrow> string \<Rightarrow> nat \<Rightarrow> indicator"
where
  "rhymeIndicator rhymeGroups nearRhymeGroups line i =
     (if \<not> isContentLine line then NoIndicator
      else
        (case findIndex (\<lambda>g. i \<in> set g) rhymeGroups of
           Some rhymeGroupIndex \<Rightarrow> RhymeDot (rhymeGroupIndex mod 30)
         | None \<Rightarrow>
             (case findIndex (\<lambda>g. i \<in> set g) nearRhymeGroups of
                Some nearRhymeGroupIndex \<Rightarrow> NearRhymeDot (nearRhymeGroupIndex mod 30)
              | None \<Rightarrow> NoIndicator)))"

definition syllableCell :: "string \<Rightarrow> jsvalue option" where
  \<comment> \<open>\<open>None\<close> is the empty cell\<close>
  "syllableCell line =
     (if trim line = BREAK_MARKER then None
      else
        let count = countLineSyllables line
        in if trim line \<noteq> [] then Some count else None)"

record editor_view =
  rhymeGroups :: "nat list list"
  nearRhymeGroups :: "nat list list"
  syllableCounts :: "jsvalue option list"
  rhymeIndicators :: "indicator list"

definition updateEditor :: "string \<Rightarrow> editor_view" where
  "updateEditor editorValue =
     (let lines = splitNewline editorValue;
          (rg, ng) = buildGroups lines
      in \<lparr>rhymeGroups = rg,
          nearRhymeGroups = ng,
          syllableCounts = map syllableCell lines,
          rhymeIndicators = map (\<lambda>i. rhymeIndicator rg ng (lines ! i) i) [0..<length lines]\<rparr>)"

section \<open>Properties of the last word\<close>

declare splitWhitespace.simps [simp del]

lemma splitWhitespace_nonempty: "splitWhitespace s \<noteq> []"
  by (subst splitWhitespace.simps) (simp split: list.split)

lemma trailingRun_no_whitespace:
  assumes "\<forall>c\<in>set s. \<not> isWhitespace c"
  shows "trailingRun s = s"
proof -
  from assms have t: "takeWhile (\<lambda>c. \<not> isWhitespace c) (rev s) = rev s" by simp
  show ?thesis unfolding trailingRun_def t by simp
qed

lemma trailingRun_append:
  "trailingRun (xs @ ys) =
     (if \<forall>c\<in>set ys. \<not> isWhitespace c then trailingRun xs @ ys else trailingRun ys)"
  unfolding trailingRun_def by (simp add: takeWhile_append)

lemma trailingRun_Cons_whitespace:
  assumes "isWhitespace x"
  shows "trailingRun (x # ys) = trailingRun ys"
proof -
  from assms have "trailingRun [x] = []" by (simp add: trailingRun_def)
  then show ?thesis
    using trailingRun_append [of "[x]" ys] by (simp add: trailingRun_no_whitespace)
qed

lemma trailingRun_dropWhile:
  "trailingRun (dropWhile isWhitespace s) = trailingRun s"
  by (induction s) (simp_all add: trailingRun_Cons_whitespace)

lemma last_splitWhitespace: "last (splitWhitespace s) = trailingRun s"
proof (induction s rule: splitWhitespace.induct)
  case (1 s)
  show ?case
  proof (cases "dropWhile (\<lambda>c. \<not> isWhitespace c) s")
    case Nil
    have "splitWhitespace s = [s]"
      by (subst splitWhitespace.simps) (simp only: Nil list.case)
    moreover from Nil have "trailingRun s = s"
      by (simp add: trailingRun_no_whitespace)
    ultimately show ?thesis by simp
  next
    case (Cons x rest)
    then have s: "s = takeWhile (\<lambda>c. \<not> isWhitespace c) s @ x # rest" and x: "isWhitespace x"
      by (simp_all add: dropWhile_eq_Cons_conv)
    have "splitWhitespace s =
        takeWhile (\<lambda>c. \<not> isWhitespace c) s # splitWhitespace (dropWhile isWhitespace rest)"
      by (subst splitWhitespace.simps) (simp only: Cons list.case)
    then have "last (splitWhitespace s) = last (splitWhitespace (dropWhile isWhitespace rest))"
      using splitWhitespace_nonempty by simp
    also have "\<dots> = trailingRun (dropWhile isWhitespace rest)"
      using Cons by (rule "1.IH")
    also have "\<dots> = trailingRun (x # rest)"
      using x by (simp add: trailingRun_dropWhile trailingRun_Cons_whitespace)
    also have "\<dots> = trailingRun (takeWhile (\<lambda>c. \<not> isWhitespace c) s @ x # rest)"
      using x by (simp add: trailingRun_append)
    also have "\<dots> = trailingRun s"
      by (rule arg_cong [OF s [symmetric]])
    finally show ?thesis .
  qed
qed

lemma trailingRun_finalToken:
  assumes "\<not> endsInWhitespace s"
  shows "trailingRun s = finalToken s"
proof -
  from assms have "rev s = [] \<or> \<not> isWhitespace (hd (rev s))"
    by (auto simp: endsInWhitespace_def hd_rev)
  then have "dropWhile isWhitespace (rev s) = rev s"
    by (simp only: dropWhile_eq_self_iff)
  then show ?thesis by (simp add: trailingRun_def finalToken_def)
qed

lemma toLowerChar_idem: "toLowerChar (toLowerChar c) = toLowerChar c"
  by (simp add: toLowerChar_def Let_def)

lemma normalizeWord_toLowerCase: "normalizeWord (toLowerCase s) = normalizeWord s"
  by (simp add: normalizeWord_def toLowerCase_def toLowerChar_idem comp_def)

text \<open>
  Claim C6: \<^verbatim>\<open>lastWord\<close> returns the empty string when the trimmed line is empty, and
  otherwise the fully normalized form (lower case, every character outside \<open>a-z\<close>
  removed) of the final token. As stated this fails: \<^verbatim>\<open>getLastWord\<close> only puts the token
  into lower case. A hyphen or a digit is not in the punctuation set and stays in the
  result; letters-only normalization is done later, by \<^verbatim>\<open>normalizeWord\<close> inside
  \<^verbatim>\<open>isRhyme\<close>, \<^verbatim>\<open>isNearRhyme\<close> and \<^verbatim>\<open>getRimeParts\<close>.
\<close>

theorem getLastWord_keeps_non_letters:
  "getLastWord ''a-b'' = ''a-b'' \<and> normalizeWord ''a-b'' = ''ab''
   \<and> getLastWord ''Route 66'' = ''66'' \<and> normalizeWord ''66'' = []"
  by code_simp

text \<open>
  Claim C6, amended: \<^verbatim>\<open>lastWord\<close> returns the empty string when the trimmed line is
  empty. Otherwise it deletes the punctuation set from the trimmed line and, when the
  remaining text does not end in white space, returns its final whitespace-separated
  token in lower case, with every other character kept. The letters-only normalized form
  of that token is what \<^verbatim>\<open>normalizeWord\<close> makes of this result. Nothing is said here of
  a line whose punctuation-free text ends in white space.
\<close>

theorem getLastWord_final_token:
  assumes "\<not> endsInWhitespace (filter (\<lambda>c. \<not> isPunctuation c) (trim line))"
  shows "getLastWord line =
     (if trim line = [] then []
      else toLowerCase (finalToken (filter (\<lambda>c. \<not> isPunctuation c) (trim line))))
   \<and> normalizeWord (getLastWord line) =
     (if trim line = [] then []
      else normalizeWord (finalToken (filter (\<lambda>c. \<not> isPunctuation c) (trim line))))"
proof (cases "trim line = []")
  case True
  then show ?thesis by (simp add: getLastWord_def normalizeWord_def)
next
  case False
  have "last (splitWhitespace (filter (\<lambda>c. \<not> isPunctuation c) (trim line)))
      = finalToken (filter (\<lambda>c. \<not> isPunctuation c) (trim line))"
    using assms by (simp add: last_splitWhitespace trailingRun_finalToken)
  with False show ?thesis
    by (simp add: getLastWord_def Let_def normalizeWord_toLowerCase)
qed

text \<open>
  A line that ends in a word followed by punctuation and a space, and a line of
  punctuation only.
\<close>

theorem getLastWord_final_token_witness:
  "\<not> endsInWhitespace (filter (\<lambda>c. \<not> isPunctuation c) (trim ''Hello, big World! ''))
   \<and> getLastWord ''Hello, big World! '' = ''world''
   \<and> \<not> endsInWhitespace (filter (\<lambda>c. \<not> isPunctuation c) (trim ''...''))
   \<and> getLastWord ''...'' = []"
proof -
  have h1: "\<not> endsInWhitespace (filter (\<lambda>c. \<not> isPunctuation c) (trim ''Hello, big World! ''))"
    by code_simp
  have 1: "trim ''Hello, big World! '' \<noteq> []" by code_simp
  have 2: "toLowerCase (finalToken (filter (\<lambda>c. \<not> isPunctuation c)
      (trim ''Hello, big World! ''))) = ''world''" by code_simp
  have h2: "\<not> endsInWhitespace (filter (\<lambda>c. \<not> isPunctuation c) (trim ''...''))"
    by code_simp
  have 3: "trim ''...'' \<noteq> []" by code_simp
  have 4: "toLowerCase (finalToken (filter (\<lambda>c. \<not> isPunctuation c) (trim ''...''))) = []"
    by code_simp
  have a: "getLastWord ''Hello, big World! '' = ''world''"
    using getLastWord_final_token [OF h1] 1 2 by presburger
  have b: "getLastWord ''...'' = []"
    using getLastWord_final_token [OF h2] 3 4 by presburger
  show ?thesis by (intro conjI) (rule h1 a h2 b)+
qed

text \<open>
  When the punctuation-free text ends in white space, as in \<open>day !\<close>, the array that
  \<^verbatim>\<open>split(/\s+/)\<close> returns ends in an empty string, and \<^verbatim>\<open>getLastWord\<close> returns that empty
  string rather than the last word \<open>day\<close>. The comment of the function says "get last
  word", and \<^verbatim>\<open>countLineSyllables\<close> skips the empty elements of the same kind of array.
\<close>

lemma getLastWord_trailing_punctuation:
  "getLastWord ''day !'' = [] \<and> finalToken ''day '' = ''day''"
  by code_simp

section \<open>Properties of normalization and of the rime parts\<close>

lemma toLowerChar_lower: "isLowerLetter c \<Longrightarrow> toLowerChar c = c"
  by (simp add: isLowerLetter_def toLowerChar_def Let_def)

lemma normalizeWord_idem: "normalizeWord (normalizeWord w) = normalizeWord w"
proof -
  have "map toLowerChar (filter isLowerLetter xs) = filter isLowerLetter xs" for xs
    by (rule map_idI) (simp add: toLowerChar_lower)
  then show ?thesis
    by (simp add: normalizeWord_def stripNonLetters_def toLowerCase_def)
qed

lemma getRimeParts_normalizeWord: "getRimeParts (normalizeWord w) = getRimeParts w"
  by (simp add: getRimeParts_def normalizeWord_idem)

lemma normalizeWord_letters: "c \<in> set (normalizeWord w) \<Longrightarrow> isLowerLetter c"
  by (auto simp: normalizeWord_def stripNonLetters_def split: if_splits)

lemma collectCoda_take:
  "m \<le> length w \<Longrightarrow> collectCoda w m acc = (k, cd) \<Longrightarrow> take k w @ cd = take m w @ acc"
proof (induction m arbitrary: acc)
  case 0
  then show ?case by simp
next
  case (Suc m)
  then have "take (Suc m) w = take m w @ [w ! m]"
    by (simp add: take_Suc_conv_app_nth)
  with Suc show ?case by (auto split: if_splits)
qed

lemma collectVowels_take:
  "m \<le> length w \<Longrightarrow> collectVowels w m acc = (k, vc) \<Longrightarrow> take k w @ vc = take m w @ acc"
proof (induction m arbitrary: acc)
  case 0
  then show ?case by simp
next
  case (Suc m)
  then have "take (Suc m) w = take m w @ [w ! m]"
    by (simp add: take_Suc_conv_app_nth)
  with Suc show ?case by (auto split: if_splits)
qed

lemma collectCoda_le: "collectCoda w m acc = (k, cd) \<Longrightarrow> k \<le> m"
proof (induction m arbitrary: acc)
  case 0
  then show ?case by simp
next
  case (Suc m)
  show ?case
  proof (cases "isVowel (w ! m)")
    case True
    with Suc.prems show ?thesis by simp
  next
    case False
    with Suc.prems have "collectCoda w m (w ! m # acc) = (k, cd)" by simp
    then have "k \<le> m" by (rule Suc.IH)
    then show ?thesis by simp
  qed
qed

lemma collectCoda_consonants:
  "collectCoda w m acc = (k, cd) \<Longrightarrow> \<forall>c\<in>set acc. \<not> isVowel c \<Longrightarrow> \<forall>c\<in>set cd. \<not> isVowel c"
proof (induction m arbitrary: acc)
  case 0
  then show ?case by simp
next
  case (Suc m)
  show ?case
  proof (cases "isVowel (w ! m)")
    case True
    with Suc.prems show ?thesis by simp
  next
    case False
    with Suc.prems have "collectCoda w m (w ! m # acc) = (k, cd)"
      and "\<forall>c\<in>set (w ! m # acc). \<not> isVowel c" by simp_all
    then show ?thesis by (rule Suc.IH)
  qed
qed

lemma collectVowels_vowels:
  "collectVowels w m acc = (k, vc) \<Longrightarrow> \<forall>c\<in>set acc. isVowel c \<Longrightarrow> \<forall>c\<in>set vc. isVowel c"
proof (induction m arbitrary: acc)
  case 0
  then show ?case by simp
next
  case (Suc m)
  show ?case
  proof (cases "isVowel (w ! m)")
    case False
    with Suc.prems show ?thesis by simp
  next
    case True
    with Suc.prems have "collectVowels w m (w ! m # acc) = (k, vc)"
      and "\<forall>c\<in>set (w ! m # acc). isVowel c" by simp_all
    then show ?thesis by (rule Suc.IH)
  qed
qed

lemma getRimeParts_cases:
  obtains (empty) "normalizeWord w = []"
      "getRimeParts w = \<lparr>vowelCluster = [], coda = [], rime = [], ending = []\<rparr>"
  | (consonants) "normalizeWord w \<noteq> []"
      "getRimeParts w =
         \<lparr>vowelCluster = [], coda = [], rime = [], ending = sliceLast3 (normalizeWord w)\<rparr>"
  | (found) pre vc cd where "normalizeWord w = pre @ vc @ cd" "vc \<noteq> []"
      "\<forall>c\<in>set vc. isVowel c" "\<forall>c\<in>set cd. \<not> isVowel c"
      "getRimeParts w =
         \<lparr>vowelCluster = vc, coda = cd, rime = vc @ cd, ending = sliceLast3 (normalizeWord w)\<rparr>"
proof (cases "normalizeWord w = []")
  case True
  then show ?thesis using empty by (simp add: getRimeParts_def)
next
  case False
  obtain k cd where c: "collectCoda (normalizeWord w) (length (normalizeWord w)) [] = (k, cd)"
    by fastforce
  obtain k' vc where v: "collectVowels (normalizeWord w) k [] = (k', vc)"
    by fastforce
  have g: "getRimeParts w =
      (if vc = [] then
         \<lparr>vowelCluster = [], coda = [], rime = [], ending = sliceLast3 (normalizeWord w)\<rparr>
       else \<lparr>vowelCluster = vc, coda = cd, rime = vc @ cd, ending = sliceLast3 (normalizeWord w)\<rparr>)"
    using False c v by (simp add: getRimeParts_def)
  show ?thesis
  proof (cases "vc = []")
    case True
    then show ?thesis using consonants False g by simp
  next
    case nonempty: False
    have "k \<le> length (normalizeWord w)" using c by (rule collectCoda_le)
    then have "take k' (normalizeWord w) @ vc = take k (normalizeWord w)"
      using collectVowels_take [OF _ v] by simp
    moreover have "take k (normalizeWord w) @ cd = normalizeWord w"
      using collectCoda_take [OF _ c] by simp
    ultimately have "normalizeWord w = take k' (normalizeWord w) @ vc @ cd"
      by (metis append.assoc)
    moreover have "\<forall>c\<in>set vc. isVowel c" using collectVowels_vowels [OF v] by simp
    moreover have "\<forall>c\<in>set cd. \<not> isVowel c" using collectCoda_consonants [OF c] by simp
    ultimately show ?thesis using found nonempty g by simp
  qed
qed

text \<open>
  Claim C10: for every input word, the record returned by \<^verbatim>\<open>getRimeParts\<close> satisfies:
  the vowel cluster contains only letters from \<open>a, e, i, o, u, y\<close>; the coda contains
  only letters outside that set; the rime is the vowel cluster followed by the coda and is
  a suffix of the normalized word; the ending is the last \<open>min 3 (length n)\<close> characters
  of the normalized word \<open>n\<close>; and if the normalized word contains no vowel letter, then
  vowel cluster, coda and rime are all empty.
\<close>

theorem getRimeParts_invariants:
  "(\<forall>c\<in>set (vowelCluster (getRimeParts w)). c \<in> set ''aeiouy'')
   \<and> (\<forall>c\<in>set (coda (getRimeParts w)). isLowerLetter c \<and> c \<notin> set ''aeiouy'')
   \<and> rime (getRimeParts w) = vowelCluster (getRimeParts w) @ coda (getRimeParts w)
   \<and> suffix (rime (getRimeParts w)) (normalizeWord w)
   \<and> ending (getRimeParts w)
       = drop (length (normalizeWord w) - min 3 (length (normalizeWord w))) (normalizeWord w)
   \<and> ((\<forall>c\<in>set (normalizeWord w). c \<notin> set ''aeiouy'') \<longrightarrow>
        vowelCluster (getRimeParts w) = [] \<and> coda (getRimeParts w) = []
        \<and> rime (getRimeParts w) = [])"
proof -
  have v: "(c \<in> set ''aeiouy'') = isVowel c" for c
    by (simp add: isVowel_def vowels_def)
  have "(\<forall>c\<in>set (vowelCluster (getRimeParts w)). isVowel c)
   \<and> (\<forall>c\<in>set (coda (getRimeParts w)). isLowerLetter c \<and> \<not> isVowel c)
   \<and> rime (getRimeParts w) = vowelCluster (getRimeParts w) @ coda (getRimeParts w)
   \<and> suffix (rime (getRimeParts w)) (normalizeWord w)
   \<and> ending (getRimeParts w)
       = drop (length (normalizeWord w) - min 3 (length (normalizeWord w))) (normalizeWord w)
   \<and> ((\<forall>c\<in>set (normalizeWord w). \<not> isVowel c) \<longrightarrow>
        vowelCluster (getRimeParts w) = [] \<and> coda (getRimeParts w) = []
        \<and> rime (getRimeParts w) = [])"
  proof (cases w rule: getRimeParts_cases)
    case empty
    then show ?thesis by simp
  next
    case consonants
    then show ?thesis by (simp add: sliceLast3_def min_def)
  next
    case (found pre vc cd)
    have "set cd \<subseteq> set (normalizeWord w)" using found(1) by auto
    then have 1: "\<forall>c\<in>set cd. isLowerLetter c \<and> \<not> isVowel c"
      using normalizeWord_letters found(4) by blast
    have 2: "suffix (vc @ cd) (normalizeWord w)"
      using found(1) by (simp add: suffix_def)
    have 3: "\<not> (\<forall>c\<in>set (normalizeWord w). \<not> isVowel c)"
    proof -
      from found(2) obtain c where "c \<in> set vc" by (cases vc) auto
      with found(1,3) have "c \<in> set (normalizeWord w)" "isVowel c" by auto
      then show ?thesis by blast
    qed
    have 4: "sliceLast3 (normalizeWord w)
       = drop (length (normalizeWord w) - min 3 (length (normalizeWord w))) (normalizeWord w)"
      by (simp add: sliceLast3_def min_def)
    show ?thesis
      unfolding found(5) rime_parts.simps using found(3) 1 2 3 4 by blast
  qed
  then show ?thesis unfolding v .
qed

text \<open>
  The invariants at \<open>Light!\<close> (vowel cluster \<open>i\<close>, coda \<open>ght\<close>), and at \<open>Shh\<close>, which
  has no vowel letter.
\<close>

theorem getRimeParts_invariants_witness:
  "getRimeParts ''Light!''
     = \<lparr>vowelCluster = ''i'', coda = ''ght'', rime = ''ight'', ending = ''ght''\<rparr>
   \<and> suffix ''ight'' (normalizeWord ''Light!'')
   \<and> normalizeWord ''Shh'' = ''shh''
   \<and> vowelCluster (getRimeParts ''Shh'') = [] \<and> coda (getRimeParts ''Shh'') = []
   \<and> rime (getRimeParts ''Shh'') = [] \<and> ending (getRimeParts ''Shh'') = ''shh''"
proof -
  have n: "\<forall>c\<in>set (normalizeWord ''Shh''). c \<notin> set ''aeiouy''" by code_simp
  have e: "vowelCluster (getRimeParts ''Shh'') = [] \<and> coda (getRimeParts ''Shh'') = []
      \<and> rime (getRimeParts ''Shh'') = []"
    using getRimeParts_invariants [of "''Shh''"] n by blast
  have l: "getRimeParts ''Light!''
     = \<lparr>vowelCluster = ''i'', coda = ''ght'', rime = ''ight'', ending = ''ght''\<rparr>"
    by code_simp
  have "suffix (rime (getRimeParts ''Light!'')) (normalizeWord ''Light!'')"
    using getRimeParts_invariants [of "''Light!''"] by blast
  then have s: "suffix ''ight'' (normalizeWord ''Light!'')"
    unfolding l rime_parts.simps .
  have m: "normalizeWord ''Shh'' = ''shh''" by code_simp
  have m': "ending (getRimeParts ''Shh'') = ''shh''" by code_simp
  from e have e1: "vowelCluster (getRimeParts ''Shh'') = []"
    and e2: "coda (getRimeParts ''Shh'') = []" and e3: "rime (getRimeParts ''Shh'') = []"
    by blast+
  show ?thesis by (intro conjI) (rule l s m e1 e2 e3 m')+
qed

section \<open>Properties of the rhyme tests\<close>

text \<open>
  Claim C1: for words \<open>a\<close>, \<open>b\<close> with distinct non-empty normalized forms,
  \<^verbatim>\<open>isRhyme(a,b)\<close> is true if the rimes are equal and non-empty, or if the endings are
  equal and at least 2 characters long; in particular the ending fallback applies to words
  lacking a vowel cluster. As stated this fails: \<^verbatim>\<open>isRhyme\<close> returns false as soon as
  either word has no vowel cluster, before it looks at rimes or endings. The words \<open>shh\<close>
  and \<open>pshh\<close> have no vowel letter and the same ending \<open>shh\<close>, and do not rhyme.
\<close>

theorem isRhyme_no_fallback_without_vowels:
  "normalizeWord ''shh'' \<noteq> [] \<and> normalizeWord ''pshh'' \<noteq> []
   \<and> normalizeWord ''shh'' \<noteq> normalizeWord ''pshh''
   \<and> ending (getRimeParts ''shh'') = ending (getRimeParts ''pshh'')
   \<and> 2 \<le> length (ending (getRimeParts ''shh''))
   \<and> \<not> isRhyme ''shh'' ''pshh''"
  by code_simp

text \<open>
  Claim C1, amended: for words \<open>a\<close>, \<open>b\<close> with distinct non-empty normalized forms,
  \<^verbatim>\<open>isRhyme(a,b)\<close> is true exactly when both words have a non-empty vowel cluster and
  either their rimes are equal or their endings are equal and at least 2 characters
  long. A word without a vowel cluster rhymes with nothing: the ending fallback does not
  apply to it.
\<close>

theorem isRhyme_iff:
  assumes "normalizeWord a \<noteq> []" and "normalizeWord b \<noteq> []"
    and "normalizeWord a \<noteq> normalizeWord b"
  shows "isRhyme a b \<longleftrightarrow>
     vowelCluster (getRimeParts a) \<noteq> [] \<and> vowelCluster (getRimeParts b) \<noteq> []
     \<and> (rime (getRimeParts a) = rime (getRimeParts b)
        \<or> (ending (getRimeParts a) = ending (getRimeParts b)
           \<and> 2 \<le> length (ending (getRimeParts a))))"
  unfolding isRhyme_def Let_def getRimeParts_normalizeWord
  using assms by auto
text \<open>
  \<open>Cat\<close> and \<open>bat.\<close> share the rime \<open>at\<close> and rhyme.
\<close>

theorem isRhyme_iff_witness:
  "normalizeWord ''Cat'' \<noteq> [] \<and> normalizeWord ''bat.'' \<noteq> []
   \<and> normalizeWord ''Cat'' \<noteq> normalizeWord ''bat.''
   \<and> rime (getRimeParts ''Cat'') = rime (getRimeParts ''bat.'')
   \<and> isRhyme ''Cat'' ''bat.''"
proof -
  have h1: "normalizeWord ''Cat'' \<noteq> []" by code_simp
  have h2: "normalizeWord ''bat.'' \<noteq> []" by code_simp
  have h3: "normalizeWord ''Cat'' \<noteq> normalizeWord ''bat.''" by code_simp
  have v1: "vowelCluster (getRimeParts ''Cat'') \<noteq> []" by code_simp
  have v2: "vowelCluster (getRimeParts ''bat.'') \<noteq> []" by code_simp
  have r: "rime (getRimeParts ''Cat'') = rime (getRimeParts ''bat.'')" by code_simp
  have "isRhyme ''Cat'' ''bat.''"
    using isRhyme_iff [OF h1 h2 h3] v1 v2 r by blast
  then show ?thesis using h1 h2 h3 r by blast
qed


lemma isRhyme_commute: "isRhyme a b = isRhyme b a"
  unfolding isRhyme_def Let_def by auto

lemma isNearRhyme_commute: "isNearRhyme a b = isNearRhyme b a"
  unfolding isNearRhyme_def Let_def using isRhyme_commute [of a b] by auto

text \<open>
  Claim C9: for every pair of words \<open>a\<close>, \<open>b\<close>, \<^verbatim>\<open>isRhyme(a,b)\<close> equals
  \<^verbatim>\<open>isRhyme(b,a)\<close> and \<^verbatim>\<open>isNearRhyme(a,b)\<close> equals \<^verbatim>\<open>isNearRhyme(b,a)\<close>.
\<close>

theorem rhyme_tests_symmetric:
  "isRhyme a b = isRhyme b a \<and> isNearRhyme a b = isNearRhyme b a"
  using isRhyme_commute [of a b] isNearRhyme_commute [of a b] by simp

text \<open>
  Claim C5: \<^verbatim>\<open>isNearRhyme("time","fine")\<close> is true and \<^verbatim>\<open>isNearRhyme("time","time")\<close>
  is false. The second half holds. The first does not: both words end in the vowel
  \<open>e\<close>, so each has the vowel cluster \<open>e\<close>, an empty coda and the rime \<open>e\<close>; the rimes
  are equal, \<^verbatim>\<open>isRhyme\<close> answers true, and \<^verbatim>\<open>isNearRhyme\<close> returns false at its first
  test. The comment in the source gives this very pair as its example of a near rhyme.
\<close>

theorem isNearRhyme_time_fine:
  "isNearRhyme ''time'' ''fine'' = False
   \<and> isRhyme ''time'' ''fine'' = True
   \<and> rime (getRimeParts ''time'') = ''e''
   \<and> rime (getRimeParts ''fine'') = ''e''
   \<and> isNearRhyme ''time'' ''time'' = False"
  by code_simp

text \<open>
  The two classes exclude each other, and no word rhymes or near-rhymes with itself.
\<close>

theorem rhyme_classes_exclusive:
  "\<not> (isRhyme a b \<and> isNearRhyme a b) \<and> \<not> isRhyme w w \<and> \<not> isNearRhyme w w"
  by (simp add: isRhyme_def isNearRhyme_def Let_def)

section \<open>Properties of the syllable counter\<close>

text \<open>
  Claim C7: \<^verbatim>\<open>countSyllables\<close> returns an integer that is at least 1 whenever the input
  normalizes to a non-empty word, and 0 when it normalizes to the empty string. The word
  \<open>constructor\<close> normalizes to itself, and the lookup \<^verbatim>\<open>specialCases[word]\<close> finds the
  property of that name that every object inherits; its value, a function, is truthy and
  is what \<^verbatim>\<open>countSyllables\<close> returns: not an integer.
\<close>

theorem countSyllables_constructor:
  "normalizeWord ''constructor'' = ''constructor''
   \<and> countSyllables ''constructor'' = NonNumber
   \<and> countLineSyllables ''the constructor'' = NonNumber"
  by code_simp

lemma whitespace_not_letter: "isWhitespace c \<Longrightarrow> \<not> isLowerLetter c"
  by (auto simp: isWhitespace_def isLowerLetter_def)

lemma filter_dropWhile_disjoint:
  "(\<And>c. Q c \<Longrightarrow> \<not> P c) \<Longrightarrow> filter P (dropWhile Q s) = filter P s"
  by (induction s) auto

lemma stripNonLetters_trim: "stripNonLetters (trim s) = stripNonLetters s"
proof -
  have "filter isLowerLetter (dropWhile isWhitespace t) = filter isLowerLetter t" for t
    by (rule filter_dropWhile_disjoint) (rule whitespace_not_letter)
  then show ?thesis
    by (simp add: stripNonLetters_def trim_def rev_filter [symmetric])
qed

lemma normalizeWord_eq: "normalizeWord w = stripNonLetters (trim (toLowerCase w))"
proof -
  have "stripNonLetters (toLowerCase []) = []"
    by (simp add: stripNonLetters_def toLowerCase_def)
  then show ?thesis by (simp add: normalizeWord_def stripNonLetters_trim)
qed

lemma countSyllables_normalized:
  "countSyllables w =
     (let word = normalizeWord w
      in if word = [] then Number 0
      else if truthy (specialCases word) then the (specialCases word)
      else
        let count = countVowelGroups word 0 False;
            count = (if endsWith word ''e'' \<and> count > 1 then count - 1 else count);
            count = (if length word > 2 \<and> endsWith word ''le''
                        \<and> \<not> isVowel (word ! (length word - 3))
                     then count + 1 else count)
        in Number (max 1 count))"
proof (cases "trim (toLowerCase w) = []")
  case True
  then have "normalizeWord w = []"
    by (simp add: normalizeWord_eq stripNonLetters_def)
  with True show ?thesis by (simp add: countSyllables_def)
next
  case False
  then show ?thesis
    unfolding countSyllables_def normalizeWord_eq Let_def by simp
qed

lemma specialCasesOwn_positive: "map_of specialCasesOwn w = Some n \<Longrightarrow> 1 \<le> n"
  by (auto simp: specialCasesOwn_def split: if_splits)

lemma specialCases_number:
  assumes "w \<noteq> ''constructor''" and "truthy (specialCases w)"
  shows "\<exists>n\<ge>1. the (specialCases w) = Number n"
proof (cases "map_of specialCasesOwn w")
  case None
  with assms show ?thesis by (simp add: specialCases_def)
next
  case (Some n)
  then have "1 \<le> n" by (rule specialCasesOwn_positive)
  with Some show ?thesis by (simp add: specialCases_def)
qed

text \<open>
  For every other word the syllable counter does return a number: 0 when the word
  normalizes to the empty string, and at least 1 when it normalizes to a non-empty word
  other than \<open>constructor\<close>.
\<close>

theorem countSyllables_positive:
  "(normalizeWord w = [] \<longrightarrow> countSyllables w = Number 0)
   \<and> (normalizeWord w \<noteq> [] \<and> normalizeWord w \<noteq> ''constructor'' \<longrightarrow>
        (\<exists>n\<ge>1. countSyllables w = Number n))"
proof (intro conjI impI)
  assume "normalizeWord w = []"
  then show "countSyllables w = Number 0" by (simp add: countSyllables_normalized)
next
  assume a: "normalizeWord w \<noteq> [] \<and> normalizeWord w \<noteq> ''constructor''"
  show "\<exists>n\<ge>1. countSyllables w = Number n"
  proof (cases "truthy (specialCases (normalizeWord w))")
    case True
    with a specialCases_number [of "normalizeWord w"] show ?thesis
      by (simp add: countSyllables_normalized)
  next
    case False
    with a show ?thesis
      unfolding countSyllables_normalized Let_def by (simp del: max.bounded_iff)
  qed
qed

text \<open>
  \<open>12\<close> normalizes to the empty string; \<open>Table!\<close> has two syllables.
\<close>

theorem countSyllables_positive_witness:
  "normalizeWord ''12'' = [] \<and> countSyllables ''12'' = Number 0
   \<and> normalizeWord ''Table!'' = ''table'' \<and> countSyllables ''Table!'' = Number 2"
proof -
  have e: "normalizeWord ''12'' = []" by code_simp
  have t: "normalizeWord ''Table!'' = ''table''" by code_simp
  have v: "countSyllables ''Table!'' = Number 2" by code_simp
  have c: "normalizeWord ''Table!'' \<noteq> [] \<and> normalizeWord ''Table!'' \<noteq> ''constructor''"
    by code_simp
  from countSyllables_positive [of "''Table!''"] c
  have "\<exists>n\<ge>1. countSyllables ''Table!'' = Number n" by blast
  from countSyllables_positive [of "''12''"] e have "countSyllables ''12'' = Number 0"
    by blast
  with e t v show ?thesis by (intro conjI)
qed

section \<open>Properties of the sections\<close>

lemma inSameSection_iff:
  "inSameSection bps i j \<longleftrightarrow> (\<forall>b\<in>set bps. \<not> ((i < b \<and> b \<le> j) \<or> (j < b \<and> b \<le> i)))"
  by (induction bps) auto

text \<open>
  Claim C4: for all line indices \<open>i\<close>, \<open>j\<close> and every set of break positions,
  \<^verbatim>\<open>sameSection(i,j)\<close> is true if and only if no break position lies strictly between
  \<open>i\<close> and \<open>j\<close>; a break position equal to \<open>i\<close> or to \<open>j\<close> does not by itself
  separate them. As stated this fails: the test of \<^verbatim>\<open>inSameSection\<close> is
  \<^verbatim>\<open>i < breakPos && j >= breakPos\<close>, so a break position equal to the larger index does
  separate the two. With the lines \<open>a\<close>, \<open>---\<close> the only break position is 1, which is
  not strictly between 0 and 1, and yet the answer for 0 and 1 is false.
\<close>

theorem inSameSection_break_at_larger_index:
  "breakPositions [''a'', ''---''] = [1]
   \<and> \<not> inSameSection [1] 0 1
   \<and> \<not> (0 < (1::nat) \<and> (1::nat) < 1)"
  by code_simp

text \<open>
  Claim C4, amended: \<^verbatim>\<open>sameSection(i,j)\<close> is true if and only if no break position \<open>b\<close>
  satisfies \<open>min i j < b \<le> max i j\<close>: a break position equal to the smaller index does
  not separate the two, one equal to the larger index does. When neither \<open>i\<close> nor \<open>j\<close>
  is a break position (the only way the grouping loop calls it), this is: no break
  position lies strictly between \<open>i\<close> and \<open>j\<close>.
\<close>

theorem inSameSection_characterisation:
  "(inSameSection bps i j \<longleftrightarrow> (\<forall>b\<in>set bps. \<not> (min i j < b \<and> b \<le> max i j)))
   \<and> (i \<notin> set bps \<and> j \<notin> set bps \<longrightarrow>
        (inSameSection bps i j \<longleftrightarrow> (\<forall>b\<in>set bps. \<not> (min i j < b \<and> b < max i j))))"
proof -
  have 1: "inSameSection bps i j \<longleftrightarrow> (\<forall>b\<in>set bps. \<not> (min i j < b \<and> b \<le> max i j))"
    unfolding inSameSection_iff by (auto simp: min_def max_def)
  have 2: "inSameSection bps i j \<longleftrightarrow> (\<forall>b\<in>set bps. \<not> (min i j < b \<and> b < max i j))"
    if "i \<notin> set bps" "j \<notin> set bps"
  proof -
    have "(min i j < b \<and> b \<le> max i j) = (min i j < b \<and> b < max i j)" if "b \<in> set bps" for b
    proof -
      from that \<open>i \<notin> set bps\<close> \<open>j \<notin> set bps\<close> have "b \<noteq> i" "b \<noteq> j" by auto
      then show ?thesis by (auto simp: min_def max_def)
    qed
    then show ?thesis unfolding 1 by blast
  qed
  show ?thesis using 1 2 by blast
qed

text \<open>
  With break positions 1 and 4: lines 2 and 3 are in one section, lines 0 and 2 are not,
  lines 1 and 3 are (the break is the smaller index), lines 3 and 4 are not (the break is
  the larger index).
\<close>

theorem inSameSection_characterisation_witness:
  "inSameSection [1, 4] 2 3 \<and> \<not> inSameSection [1, 4] 0 2 \<and> inSameSection [1, 4] 1 3
   \<and> \<not> inSameSection [1, 4] 3 4"
proof -
  have "inSameSection [1, 4] 2 3"
    using inSameSection_characterisation [of "[1, 4]" 2 3] by simp
  moreover have "\<not> inSameSection [1, 4] 0 2"
    using inSameSection_characterisation [of "[1, 4]" 0 2] by simp
  moreover have "inSameSection [1, 4] 1 3"
    using inSameSection_characterisation [of "[1, 4]" 1 3] by simp
  moreover have "\<not> inSameSection [1, 4] 3 4"
    using inSameSection_characterisation [of "[1, 4]" 3 4] by simp
  ultimately show ?thesis by blast
qed

section \<open>Properties of the groups\<close>

text \<open>
  Claim C2: no line index is a member of two groups, across the rhyme groups and the
  near-rhyme groups together. The outer loop skips a line that is already in a rhyme
  group, but the inner loop adds every later line that rhymes with line \<open>i\<close>, whether or
  not an earlier group holds it already. With the lines \<open>cat\<close>, \<open>cat\<close>, \<open>bat\<close> the
  first line takes the third into its group (the second has the same word, and a word
  does not rhyme with itself); the second line is then in no group and takes the third
  as well. Also, the flag \<^verbatim>\<open>inRhymeGroup\<close> is read before the rhyme group of line \<open>i\<close> is
  built, so a line that has just started a rhyme group may start a near-rhyme group too:
  with \<open>cat\<close>, \<open>bat\<close>, \<open>cab\<close> line 0 is in both lists.
\<close>

theorem updateEditor_line_in_two_groups:
  "rhymeGroups (updateEditor ''cat\<newline>cat\<newline>bat'') = [[0, 2], [1, 2]]
   \<and> rhymeGroups (updateEditor ''cat\<newline>bat\<newline>cab'') = [[0, 1]]
   \<and> nearRhymeGroups (updateEditor ''cat\<newline>bat\<newline>cab'') = [[0, 2]]"
  by code_simp

lemma scanGroup_anchored: "anchoredGroup bps (scanGroup matches lines lastWords bps i)"
  unfolding anchoredGroup_def scanGroup_def by (rule exI [of _ i]) auto

lemma groupStep_anchored:
  assumes "\<forall>g\<in>set (fst s) \<union> set (snd s). anchoredGroup bps g"
  shows "\<forall>g\<in>set (fst (groupStep lines lastWords bps i s))
            \<union> set (snd (groupStep lines lastWords bps i s)). anchoredGroup bps g"
proof -
  obtain rg ng where s: "s = (rg, ng)" by (cases s)
  have rg: "\<forall>g\<in>set rg. anchoredGroup bps g" and ng: "\<forall>g\<in>set ng. anchoredGroup bps g"
    using assms s by auto
  show ?thesis
    unfolding s groupStep_def Let_def
    using rg ng scanGroup_anchored [of bps _ lines lastWords i] by auto
qed

lemma buildGroups_anchored:
  "\<forall>g\<in>set (fst (buildGroups lines)) \<union> set (snd (buildGroups lines)).
     anchoredGroup (breakPositions lines) g"
  unfolding buildGroups_def
proof (rule fold_invariant [where Q = "\<lambda>_. True"])
  show "\<forall>g\<in>set (fst ([], [])) \<union> set (snd ([], [])). anchoredGroup (breakPositions lines) g"
    by simp
qed (simp_all add: groupStep_anchored)

lemma anchoredGroup_no_break_between:
  assumes "anchoredGroup bps g" and "a \<in> set g" and "b \<in> set g" and "p \<in> set bps"
  shows "\<not> (min a b < p \<and> p < max a b)"
proof
  assume between: "min a b < p \<and> p < max a b"
  from assms(1) obtain i where i: "\<forall>x\<in>set g. x = i \<or> (i < x \<and> inSameSection bps i x)"
    unfolding anchoredGroup_def by blast
  define lo where "lo = min a b"
  define hi where "hi = max a b"
  have "lo \<in> set g" "hi \<in> set g"
    using assms(2,3) by (simp_all add: lo_def hi_def min_def max_def)
  with i have lo: "i \<le> lo" and hi: "hi = i \<or> (i < hi \<and> inSameSection bps i hi)"
    by auto
  from between have p: "lo < p" "p < hi" by (simp_all add: lo_def hi_def)
  with lo have "i < hi" "i < p" "p \<le> hi" by simp_all
  with hi have "inSameSection bps i hi" by simp
  with assms(4) \<open>i < p\<close> \<open>p \<le> hi\<close> show False
    unfolding inSameSection_iff by blast
qed

lemma updateEditor_groups:
  "rhymeGroups (updateEditor buf) = fst (buildGroups (splitNewline buf))"
  "nearRhymeGroups (updateEditor buf) = snd (buildGroups (splitNewline buf))"
  by (simp_all add: updateEditor_def Let_def split: prod.split)

lemma breakPositions_member:
  "p < length lines \<Longrightarrow> trim (lines ! p) = BREAK_MARKER \<Longrightarrow> p \<in> set (breakPositions lines)"
  by (simp add: breakPositions_def)

text \<open>
  Claim C3: for every buffer, any two line indices placed in the same group (rhyme or
  near rhyme) lie in the same section: no break-marker line occurs strictly between them.
  In particular, for the lines \<open>day\<close>, \<open>way\<close>, \<open>---\<close>, \<open>play\<close>, lines 0 and 1 form
  one rhyme group and line 3 belongs to no group (the only group is \<open>[0, 1]\<close>).
\<close>

theorem groups_stay_in_section:
  "(\<forall>g\<in>set (rhymeGroups (updateEditor buf) @ nearRhymeGroups (updateEditor buf)).
      \<forall>a\<in>set g. \<forall>b\<in>set g. \<forall>p < length (splitNewline buf).
        trim (splitNewline buf ! p) = BREAK_MARKER \<longrightarrow> \<not> (min a b < p \<and> p < max a b))
   \<and> rhymeGroups (updateEditor ''day\<newline>way\<newline>---\<newline>play'') = [[0, 1]]
   \<and> nearRhymeGroups (updateEditor ''day\<newline>way\<newline>---\<newline>play'') = []
   \<and> \<not> inGroup (rhymeGroups (updateEditor ''day\<newline>way\<newline>---\<newline>play'')
          @ nearRhymeGroups (updateEditor ''day\<newline>way\<newline>---\<newline>play'')) 3"
proof -
  have general: "\<not> (min a b < p \<and> p < max a b)"
    if "g \<in> set (rhymeGroups (updateEditor buf) @ nearRhymeGroups (updateEditor buf))"
      and "a \<in> set g" and "b \<in> set g" and "p < length (splitNewline buf)"
      and "trim (splitNewline buf ! p) = BREAK_MARKER"
    for g a b p
  proof -
    from that(1) have anchored: "anchoredGroup (breakPositions (splitNewline buf)) g"
      using buildGroups_anchored [of "splitNewline buf"] by (auto simp: updateEditor_groups)
    from that(4,5) have break: "p \<in> set (breakPositions (splitNewline buf))"
      by (rule breakPositions_member)
    show ?thesis
      by (rule anchoredGroup_no_break_between [OF anchored that(2,3) break])
  qed
  have rhyme: "rhymeGroups (updateEditor ''day\<newline>way\<newline>---\<newline>play'') = [[0, 1]]"
    by code_simp
  have near: "nearRhymeGroups (updateEditor ''day\<newline>way\<newline>---\<newline>play'') = []"
    by code_simp
  show ?thesis
  proof (intro conjI ballI allI impI)
    show "rhymeGroups (updateEditor ''day\<newline>way\<newline>---\<newline>play'') = [[0, 1]]" by (rule rhyme)
    show "nearRhymeGroups (updateEditor ''day\<newline>way\<newline>---\<newline>play'') = []" by (rule near)
    show "\<not> inGroup (rhymeGroups (updateEditor ''day\<newline>way\<newline>---\<newline>play'')
          @ nearRhymeGroups (updateEditor ''day\<newline>way\<newline>---\<newline>play'')) 3"
      by code_simp
  qed (rule general)
qed

text \<open>
  A buffer with a break at line 1: the group of lines 2, 3 and 4 lies behind it, and line
  0, which would rhyme with them, is left out.
\<close>

theorem groups_stay_in_section_witness:
  "[2, 3, 4] \<in> set (rhymeGroups (updateEditor ''say\<newline>---\<newline>day\<newline>way\<newline>play'')
       @ nearRhymeGroups (updateEditor ''say\<newline>---\<newline>day\<newline>way\<newline>play''))
   \<and> trim (splitNewline ''say\<newline>---\<newline>day\<newline>way\<newline>play'' ! 1) = BREAK_MARKER
   \<and> \<not> (min 2 4 < (1::nat) \<and> (1::nat) < max 2 4)"
proof -
  let ?buf = "''say\<newline>---\<newline>day\<newline>way\<newline>play''"
  have g: "[2, 3, 4] \<in> set (rhymeGroups (updateEditor ?buf) @ nearRhymeGroups (updateEditor ?buf))"
    by code_simp
  have l: "1 < length (splitNewline ?buf)" by code_simp
  have t: "trim (splitNewline ?buf ! 1) = BREAK_MARKER" by code_simp
  have m: "(2::nat) \<in> set [2, 3, 4]" "(4::nat) \<in> set [2, 3, 4]" by simp_all
  from groups_stay_in_section [of ?buf]
  have "\<forall>g\<in>set (rhymeGroups (updateEditor ?buf) @ nearRhymeGroups (updateEditor ?buf)).
      \<forall>a\<in>set g. \<forall>b\<in>set g. \<forall>p < length (splitNewline ?buf).
        trim (splitNewline ?buf ! p) = BREAK_MARKER \<longrightarrow> \<not> (min a b < p \<and> p < max a b)"
    by (rule conjunct1)
  with g m l t have "\<not> (min 2 4 < (1::nat) \<and> (1::nat) < max 2 4)" by blast
  with g t show ?thesis by (intro conjI)
qed

lemma groupStep_no_content:
  "\<not> isContentLine (lines ! i) \<Longrightarrow> groupStep lines lastWords bps i s = s"
  by (simp add: groupStep_def split: prod.split)

lemma buildGroups_no_content:
  assumes "\<forall>l\<in>set lines. \<not> isContentLine l"
  shows "buildGroups lines = ([], [])"
  unfolding buildGroups_def
proof (rule fold_invariant [where Q = "\<lambda>i. i < length lines"])
  fix i and s :: "nat list list \<times> nat list list"
  assume "i < length lines" and "s = ([], [])"
  with assms show
    "groupStep lines (map getLastWord lines) (breakPositions lines) i s = ([], [])"
    by (simp add: groupStep_no_content)
qed simp_all

lemma syllableCell_no_content: "\<not> isContentLine l \<Longrightarrow> syllableCell l = None"
  by (auto simp: syllableCell_def isContentLine_def Let_def)

lemma rhymeIndicator_no_content:
  "\<not> isContentLine l \<Longrightarrow> rhymeIndicator rg ng l i = NoIndicator"
  by (simp add: rhymeIndicator_def)

lemma updateEditor_no_content:
  assumes "\<forall>l\<in>set (splitNewline buf). \<not> isContentLine l"
  shows "rhymeGroups (updateEditor buf) = [] \<and> nearRhymeGroups (updateEditor buf) = []
    \<and> syllableCounts (updateEditor buf) = replicate (length (splitNewline buf)) None
    \<and> rhymeIndicators (updateEditor buf) = replicate (length (splitNewline buf)) NoIndicator"
proof -
  have "map syllableCell (splitNewline buf) = replicate (length (splitNewline buf)) None"
    using assms by (simp add: map_replicate_const [symmetric] syllableCell_no_content
        cong: map_cong)
  moreover have "map (\<lambda>i. rhymeIndicator [] [] (splitNewline buf ! i) i)
       [0..<length (splitNewline buf)] = replicate (length (splitNewline buf)) NoIndicator"
  proof (rule nth_equalityI)
    fix i assume "i < length (map (\<lambda>i. rhymeIndicator [] [] (splitNewline buf ! i) i)
       [0..<length (splitNewline buf)])"
    then have "i < length (splitNewline buf)" by simp
    with assms show "map (\<lambda>i. rhymeIndicator [] [] (splitNewline buf ! i) i)
       [0..<length (splitNewline buf)] ! i = replicate (length (splitNewline buf)) NoIndicator ! i"
      by (simp add: rhymeIndicator_no_content)
  qed simp
  ultimately show ?thesis
    using buildGroups_no_content [OF assms]
    by (simp add: updateEditor_def Let_def)
qed

text \<open>
  Claim C8: for every degenerate buffer (the empty buffer, a buffer whose lines are all
  blank, or a buffer whose lines all trim to the break marker) the analysis produces no
  rhyme groups and no near-rhyme groups, and the syllable cell and the rhyme indicator of
  every line are empty; no operation fails on such input. Every function of the model
  is total: the array reads of the source are \<^verbatim>\<open>lines[i]\<close> and \<^verbatim>\<open>lastWords[j]\<close> at
  indices below the number of lines, \<^verbatim>\<open>words[words.length - 1]\<close> on an array that is never
  empty (\<open>splitWhitespace_nonempty\<close>), and \<^verbatim>\<open>word[word.length - 3]\<close> behind the test
  \<^verbatim>\<open>word.length > 2\<close>.
\<close>

theorem updateEditor_degenerate:
  assumes "buf = []
     \<or> (\<forall>l\<in>set (splitNewline buf). trim l = [])
     \<or> (\<forall>l\<in>set (splitNewline buf). trim l = BREAK_MARKER)"
  shows "rhymeGroups (updateEditor buf) = [] \<and> nearRhymeGroups (updateEditor buf) = []
    \<and> syllableCounts (updateEditor buf) = replicate (length (splitNewline buf)) None
    \<and> rhymeIndicators (updateEditor buf) = replicate (length (splitNewline buf)) NoIndicator"
proof -
  have "trim [] = []" by (simp add: trim_def)
  with assms have "\<forall>l\<in>set (splitNewline buf). \<not> isContentLine l"
    by (auto simp: isContentLine_def)
  then show ?thesis by (rule updateEditor_no_content)
qed

text \<open>
  The empty buffer (one blank line), two blank lines, and two break-marker lines.
\<close>

theorem updateEditor_degenerate_witness:
  "rhymeGroups (updateEditor []) = [] \<and> nearRhymeGroups (updateEditor []) = []
   \<and> syllableCounts (updateEditor []) = [None]
   \<and> rhymeIndicators (updateEditor []) = [NoIndicator]
   \<and> rhymeGroups (updateEditor '' \<newline>  '') = []
   \<and> syllableCounts (updateEditor '' \<newline>  '') = [None, None]
   \<and> nearRhymeGroups (updateEditor ''---\<newline> --- '') = []
   \<and> syllableCounts (updateEditor ''---\<newline> --- '') = [None, None]
   \<and> rhymeIndicators (updateEditor ''---\<newline> --- '') = [NoIndicator, NoIndicator]"
proof -
  have h1: "([] :: string) = [] \<or> (\<forall>l\<in>set (splitNewline []). trim l = [])
      \<or> (\<forall>l\<in>set (splitNewline []). trim l = BREAK_MARKER)"
    by simp
  have h2: "'' \<newline>  '' = [] \<or> (\<forall>l\<in>set (splitNewline '' \<newline>  ''). trim l = [])
      \<or> (\<forall>l\<in>set (splitNewline '' \<newline>  ''). trim l = BREAK_MARKER)"
    by code_simp
  have h3: "''---\<newline> --- '' = [] \<or> (\<forall>l\<in>set (splitNewline ''---\<newline> --- ''). trim l = [])
      \<or> (\<forall>l\<in>set (splitNewline ''---\<newline> --- ''). trim l = BREAK_MARKER)"
    by code_simp
  have n1: "replicate (length (splitNewline [])) x = [x]" for x :: 'a
    by simp
  have "length (splitNewline '' \<newline>  '') = Suc (Suc 0)" by code_simp
  then have n2: "replicate (length (splitNewline '' \<newline>  '')) x = [x, x]" for x :: 'a
    by simp
  have "length (splitNewline ''---\<newline> --- '') = Suc (Suc 0)" by code_simp
  then have n3: "replicate (length (splitNewline ''---\<newline> --- '')) x = [x, x]" for x :: 'a
    by simp
  show ?thesis
    using updateEditor_degenerate [OF h1] updateEditor_degenerate [OF h2]
      updateEditor_degenerate [OF h3]
    unfolding n1 n2 n3 by (intro conjI) (elim conjE, assumption)+
qed


lemma scanGroup_members:
  assumes "i < length lines" and "isContentLine (lines ! i)"
  shows "sorted_wrt (<) (scanGroup matches lines lastWords bps i)"
    and "\<forall>x\<in>set (scanGroup matches lines lastWords bps i).
           x < length lines \<and> isContentLine (lines ! x)"
  using assms by (auto simp: scanGroup_def sorted_wrt_filter)

lemma groupStep_members:
  assumes "i < length lines"
    and "\<forall>g\<in>set (fst s) \<union> set (snd s). 2 \<le> length g \<and> sorted_wrt (<) g
           \<and> (\<forall>x\<in>set g. x < length lines \<and> isContentLine (lines ! x))"
  shows "\<forall>g\<in>set (fst (groupStep lines lastWords bps i s))
            \<union> set (snd (groupStep lines lastWords bps i s)).
           2 \<le> length g \<and> sorted_wrt (<) g
           \<and> (\<forall>x\<in>set g. x < length lines \<and> isContentLine (lines ! x))"
proof (cases "isContentLine (lines ! i)")
  case False
  with assms(2) show ?thesis by (simp add: groupStep_no_content)
next
  case True
  obtain rg ng where s: "s = (rg, ng)" by (cases s)
  let ?ok = "\<lambda>g. 2 \<le> length g \<and> sorted_wrt (<) g
      \<and> (\<forall>x\<in>set g. x < length lines \<and> isContentLine (lines ! x))"
  have rg: "\<forall>g\<in>set rg. ?ok g" and ng: "\<forall>g\<in>set ng. ?ok g"
    using assms(2) s by auto
  have new: "?ok (scanGroup matches lines lastWords bps i)"
    if "1 < length (scanGroup matches lines lastWords bps i)" for matches
    using that scanGroup_members [OF assms(1) True, of matches lastWords bps] by simp
  show ?thesis
    unfolding s groupStep_def Let_def
    using rg ng new [of isRhyme] new [of isNearRhyme] True by auto
qed

lemma buildGroups_members:
  "\<forall>g\<in>set (fst (buildGroups lines)) \<union> set (snd (buildGroups lines)).
     2 \<le> length g \<and> sorted_wrt (<) g
     \<and> (\<forall>x\<in>set g. x < length lines \<and> isContentLine (lines ! x))"
  unfolding buildGroups_def
proof (rule fold_invariant [where Q = "\<lambda>i. i < length lines"])
  show "\<forall>g\<in>set (fst ([], [])) \<union> set (snd ([], [])).
     2 \<le> length g \<and> sorted_wrt (<) g
     \<and> (\<forall>x\<in>set g. x < length lines \<and> isContentLine (lines ! x))"
    by simp
next
  fix i and s :: "nat list list \<times> nat list list"
  assume "i < length lines"
    and "\<forall>g\<in>set (fst s) \<union> set (snd s). 2 \<le> length g \<and> sorted_wrt (<) g
           \<and> (\<forall>x\<in>set g. x < length lines \<and> isContentLine (lines ! x))"
  then show "\<forall>g\<in>set (fst (groupStep lines (map getLastWord lines) (breakPositions lines) i s))
            \<union> set (snd (groupStep lines (map getLastWord lines) (breakPositions lines) i s)).
           2 \<le> length g \<and> sorted_wrt (<) g
           \<and> (\<forall>x\<in>set g. x < length lines \<and> isContentLine (lines ! x))"
    by (rule groupStep_members)
qed simp

text \<open>
  Every group of the result has at least two members, lists its lines in increasing
  order, and holds only content lines of the buffer: no blank line and no break-marker
  line is a member of a group.
\<close>

theorem groups_well_formed:
  "\<forall>g\<in>set (rhymeGroups (updateEditor buf) @ nearRhymeGroups (updateEditor buf)).
     2 \<le> length g \<and> sorted_wrt (<) g
     \<and> (\<forall>x\<in>set g. x < length (splitNewline buf) \<and> isContentLine (splitNewline buf ! x))"
  using buildGroups_members [of "splitNewline buf"]
  by (simp add: updateEditor_groups)

text \<open>
  The group of lines 2, 3 and 4 again; line 3 is a content line.
\<close>

theorem groups_well_formed_witness:
  "[2, 3, 4] \<in> set (rhymeGroups (updateEditor ''say\<newline>---\<newline>day\<newline>way\<newline>play'')
       @ nearRhymeGroups (updateEditor ''say\<newline>---\<newline>day\<newline>way\<newline>play''))
   \<and> isContentLine (splitNewline ''say\<newline>---\<newline>day\<newline>way\<newline>play'' ! 3)"
proof -
  let ?buf = "''say\<newline>---\<newline>day\<newline>way\<newline>play''"
  have g: "[2, 3, 4] \<in> set (rhymeGroups (updateEditor ?buf) @ nearRhymeGroups (updateEditor ?buf))"
    by code_simp
  have m: "(3::nat) \<in> set [2, 3, 4]" by simp
  from groups_well_formed [of ?buf] g m
  have "isContentLine (splitNewline ?buf ! 3)" by blast
  with g show ?thesis by (intro conjI)
qed


end
